theory Spec2Isabelle
  imports Main "HOL-Library.AList" "HOL-Library.Multiset"
begin

section \<open>JavaScript values and objects\<close>

text \<open>
  The field values of a record. Numbers are restricted to the integers and the value
  \<open>NaN\<close>; a nested object is a reference, identified by its address, because the
  strict equality of JavaScript compares objects by identity.
\<close>

datatype jsval =
    JUndefined
  | JNull
  | JBool bool
  | JNum int
  | JNaN
  | JStr string
  | JRef nat

text \<open>
  An object is the list of its own properties in creation order, with distinct keys.
  A record of the store, a partial, a filter and an \<open>orderBy\<close> mapping are all objects;
  for the last two the list is what \<open>Object.entries\<close> returns.
\<close>

type_synonym jsobj = "(string \<times> jsval) list"

text \<open>Property access \<open>o[k]\<close>: a missing property reads as \<open>undefined\<close>.\<close>

definition get :: "jsobj \<Rightarrow> string \<Rightarrow> jsval" where
  "get obj k = (case map_of obj k of None \<Rightarrow> JUndefined | Some v \<Rightarrow> v)"

text \<open>The operator \<open>===\<close>: equality of values, except that \<open>NaN\<close> equals nothing.\<close>

definition strict_eq :: "jsval \<Rightarrow> jsval \<Rightarrow> bool" where
  "strict_eq a b = (a = b \<and> a \<noteq> JNaN)"

text \<open>The operator \<open>a ?? b\<close>: \<open>b\<close> when \<open>a\<close> is \<open>null\<close> or \<open>undefined\<close>.\<close>

definition nullish :: "jsval \<Rightarrow> jsval \<Rightarrow> jsval" where
  "nullish a b = (if a = JUndefined \<or> a = JNull then b else a)"

text \<open>The own keys of an object, each once.\<close>

definition own_keys :: "jsobj \<Rightarrow> string list" where
  "own_keys obj = remdups (map fst obj)"

text \<open>
  \<open>Object.assign(target, src)\<close>: for every own key \<open>k\<close> of \<open>src\<close>, in order, the
  assignment \<open>target[k] = src[k]\<close>; a key already in \<open>target\<close> keeps its position, a
  new key goes to the end.
\<close>

definition obj_assign :: "jsobj \<Rightarrow> jsobj \<Rightarrow> jsobj" where
  "obj_assign target src = fold (\<lambda>k. AList.update k (get src k)) (own_keys src) target"

text \<open>The object literal \<open>{...a, ...b, ...}\<close>: a fresh object receiving each part in turn.\<close>

definition spread :: "jsobj list \<Rightarrow> jsobj" where
  "spread parts = foldl obj_assign [] parts"

text \<open>\<open>Array.prototype.findIndex\<close>, with \<open>None\<close> for the result \<open>-1\<close>.\<close>

fun findIndex :: "('a \<Rightarrow> bool) \<Rightarrow> 'a list \<Rightarrow> nat option" where
  "findIndex p [] = None"
| "findIndex p (x # xs) =
     (if p x then Some 0 else map_option Suc (findIndex p xs))"

text \<open>
  \<open>Array.prototype.slice(start, end)\<close> on integers: a negative index counts from the
  end of the array, and both are clamped to the array.
\<close>

definition slice_index :: "int \<Rightarrow> nat \<Rightarrow> nat" where
  "slice_index i len = (if i < 0 then nat (max (int len + i) 0) else min (nat i) len)"

definition slice :: "int \<Rightarrow> int option \<Rightarrow> 'a list \<Rightarrow> 'a list" where
  "slice start end xs =
     (let len = length xs;
          k = slice_index start len;
          final = (case end of None \<Rightarrow> len | Some e \<Rightarrow> slice_index e len)
      in take (final - k) (drop k xs))"

text \<open>
  \<open>Array.prototype.sort(cmp)\<close>. The language fixes the result for a consistent
  comparator: the stable sort, which a stable insertion sort computes. For a comparator
  that is not consistent the language leaves the order to the engine, and the result of
  the model need not be the engine's; every statement below about the order of a
  sorted result assumes a consistent comparator.
\<close>

fun insert_sorted :: "('a \<Rightarrow> 'a \<Rightarrow> int) \<Rightarrow> 'a \<Rightarrow> 'a list \<Rightarrow> 'a list" where
  "insert_sorted cmp x [] = [x]"
| "insert_sorted cmp x (y # ys) =
     (if cmp x y \<le> 0 then x # y # ys else y # insert_sorted cmp x ys)"

definition array_sort :: "('a \<Rightarrow> 'a \<Rightarrow> int) \<Rightarrow> 'a list \<Rightarrow> 'a list" where
  "array_sort cmp xs = foldr (insert_sorted cmp) xs []"

section \<open>The in-memory repository\<close>

text \<open>
  The two fields of \<open>InMemoryRepository\<close>. The arrays are values: \<open>beginTransaction\<close>
  pushes a copy \<open>[...this.store]\<close>, so no snapshot shares its array with the live
  store, and no operation writes into a stored object (\<open>update\<close> replaces the element
  by a fresh object).
\<close>

record InMemoryRepository =
  transactionStack :: "jsobj list list"
  store :: "jsobj list"

definition init_repo :: InMemoryRepository where
  "init_repo = \<lparr>transactionStack = [], store = []\<rparr>"

definition beginTransaction :: "InMemoryRepository \<Rightarrow> InMemoryRepository" where
  "beginTransaction st = st\<lparr>transactionStack := transactionStack st @ [store st]\<rparr>"

text \<open>\<open>pop\<close> on an empty array returns \<open>undefined\<close> and leaves it empty.\<close>

definition commitTransaction :: "InMemoryRepository \<Rightarrow> InMemoryRepository" where
  "commitTransaction st = st\<lparr>transactionStack := butlast (transactionStack st)\<rparr>"

definition rollbackTransaction :: "InMemoryRepository \<Rightarrow> InMemoryRepository" where
  "rollbackTransaction st =
     (if length (transactionStack st) > 0
      then st\<lparr>store := last (transactionStack st),
              transactionStack := butlast (transactionStack st)\<rparr>
      else st)"

text \<open>
  \<open>create\<close>. The argument \<open>uuid\<close> is the string that \<open>randomUUID()\<close> returns when it
  is called, which happens only for a partial without an identifier.
\<close>

definition create :: "jsobj \<Rightarrow> string \<Rightarrow> InMemoryRepository \<Rightarrow> jsobj \<times> InMemoryRepository" where
  "create data uuid st =
     (let entity = spread [data, [(''id'', nullish (get data ''id'') (JStr uuid))]]
      in (entity, st\<lparr>store := store st @ [entity]\<rparr>))"

fun createMany ::
  "(jsobj \<times> string) list \<Rightarrow> InMemoryRepository \<Rightarrow> jsobj list \<times> InMemoryRepository" where
  "createMany [] st = ([], st)"
| "createMany ((data, uuid) # dataArr) st =
     (let (entity, st1) = create data uuid st;
          (created, st2) = createMany dataArr st1
      in (entity # created, st2))"

definition update ::
  "string \<Rightarrow> jsobj \<Rightarrow> InMemoryRepository \<Rightarrow> jsobj option \<times> InMemoryRepository" where
  "update id' data st =
     (case findIndex (\<lambda>item. strict_eq (get item ''id'') (JStr id')) (store st) of
        None \<Rightarrow> (None, st)
      | Some index \<Rightarrow>
          (let merged = spread [store st ! index, data]
           in (Some merged, st\<lparr>store := (store st)[index := merged]\<rparr>)))"

text \<open>
  \<open>updateMany\<close> maps \<open>update\<close> over the array; no call suspends, so the updates run
  one after the other in the order of the array.
\<close>

fun updateMany ::
  "(string \<times> jsobj) list \<Rightarrow> InMemoryRepository \<Rightarrow> jsobj option list \<times> InMemoryRepository" where
  "updateMany [] st = ([], st)"
| "updateMany ((id', data) # updates) st =
     (let (r, st1) = update id' data st;
          (rs, st2) = updateMany updates st1
      in (r # rs, st2))"

definition delete :: "string \<Rightarrow> InMemoryRepository \<Rightarrow> InMemoryRepository" where
  "delete id' st =
     st\<lparr>store := filter (\<lambda>item. \<not> strict_eq (get item ''id'') (JStr id')) (store st)\<rparr>"

text \<open>\<open>ids.includes(item.id)\<close>: some element of \<open>ids\<close> is the same string as the identifier.\<close>

definition deleteMany :: "string list \<Rightarrow> InMemoryRepository \<Rightarrow> InMemoryRepository" where
  "deleteMany ids st =
     st\<lparr>store := filter (\<lambda>item. \<not> list_ex (\<lambda>i. get item ''id'' = JStr i) ids) (store st)\<rparr>"

text \<open>\<open>Array.prototype.find\<close> returns the first match; \<open>None\<close> is the result \<open>null\<close>.\<close>

definition findById :: "string \<Rightarrow> InMemoryRepository \<Rightarrow> jsobj option" where
  "findById id' st = List.find (\<lambda>item. strict_eq (get item ''id'') (JStr id')) (store st)"

definition matchesFilter :: "jsobj \<Rightarrow> jsobj \<Rightarrow> bool" where
  "matchesFilter item filters = list_all (\<lambda>(k, v). strict_eq (get item k) v) filters"

definition findOne :: "jsobj \<Rightarrow> InMemoryRepository \<Rightarrow> jsobj option" where
  "findOne filters st = List.find (\<lambda>item. matchesFilter item filters) (store st)"

definition findAll :: "InMemoryRepository \<Rightarrow> jsobj list" where
  "findAll st = store st"

text \<open>
  The options of \<open>find\<close>. Each field is optional, and so is the options object itself.
\<close>

record FindOptions =
  orderBy :: "jsobj option"
  offset :: "int option"
  limit :: "int option"

datatype violation = Violation string string

datatype error =
    TypeError
  | Error string
  | ValidationFailed "violation list"

text \<open>
  The comparator that \<open>find\<close> gives to \<open>sort\<close>. The parameter \<open>lt\<close> is the operator
  \<open><\<close> of the language on field values; \<open>a > b\<close> is \<open>b < a\<close>. Every direction other than
  the string \<open>ASC\<close> sorts downwards.
\<close>

definition compare_by ::
  "(jsval \<Rightarrow> jsval \<Rightarrow> bool) \<Rightarrow> string \<Rightarrow> jsval \<Rightarrow> jsobj \<Rightarrow> jsobj \<Rightarrow> int" where
  "compare_by lt key dir a b =
     (if lt (get a key) (get b key) then (if strict_eq dir (JStr ''ASC'') then - 1 else 1)
      else if lt (get b key) (get a key) then (if strict_eq dir (JStr ''ASC'') then 1 else - 1)
      else 0)"

text \<open>
  \<open>find\<close>. A number is truthy when it is not zero, an object always. Destructuring
  the first entry of an \<open>orderBy\<close> without entries raises a \<open>TypeError\<close>.
\<close>

definition find_mem ::
  "(jsval \<Rightarrow> jsval \<Rightarrow> bool) \<Rightarrow> jsobj option \<Rightarrow> FindOptions option \<Rightarrow> InMemoryRepository
     \<Rightarrow> error + jsobj list" where
  "find_mem lt filters options st =
     (let results = (case filters of
                       Some f \<Rightarrow> filter (\<lambda>item. matchesFilter item f) (store st)
                     | None \<Rightarrow> store st);
          sorted_results = (case Option.bind options orderBy of
                       None \<Rightarrow> Inr results
                     | Some [] \<Rightarrow> Inl TypeError
                     | Some ((key, dir) # _) \<Rightarrow> Inr (array_sort (compare_by lt key dir) results))
      in case sorted_results of
           Inl e \<Rightarrow> Inl e
         | Inr results1 \<Rightarrow>
             (let results2 = (case Option.bind options offset of
                                Some off \<Rightarrow> if off \<noteq> 0 then slice off None results1 else results1
                              | None \<Rightarrow> results1);
                  results3 = (case Option.bind options limit of
                                Some lim \<Rightarrow> if lim \<noteq> 0 then slice 0 (Some lim) results2 else results2
                              | None \<Rightarrow> results2)
              in Inr results3))"

text \<open>
  The operator \<open><\<close> on two numbers and on two strings (by code units). On other pairs of
  operands the language coerces; those are not modelled, and the value here is \<open>False\<close>.
\<close>

fun str_lt :: "string \<Rightarrow> string \<Rightarrow> bool" where
  "str_lt [] [] = False"
| "str_lt [] (y # ys) = True"
| "str_lt (x # xs) [] = False"
| "str_lt (x # xs) (y # ys) =
     (if (of_char x :: nat) < of_char y then True
      else if (of_char y :: nat) < of_char x then False
      else str_lt xs ys)"

fun js_lt :: "jsval \<Rightarrow> jsval \<Rightarrow> bool" where
  "js_lt (JNum x) (JNum y) = (x < y)"
| "js_lt (JStr s) (JStr t) = str_lt s t"
| "js_lt _ _ = False"

text \<open>
  The operator \<open><\<close> is consistent on a list of values when it is asymmetric and
  negatively transitive there (a strict weak order), as it is on numbers other than
  \<open>NaN\<close> and on strings. It is not as soon as \<open>undefined\<close> stands among distinct
  numbers.
\<close>

definition strict_weak_on :: "(jsval \<Rightarrow> jsval \<Rightarrow> bool) \<Rightarrow> jsval list \<Rightarrow> bool" where
  "strict_weak_on lt vs =
     (list_all (\<lambda>a. list_all (\<lambda>b. \<not> (lt a b \<and> lt b a)) vs) vs
      \<and> list_all (\<lambda>a. list_all (\<lambda>b. list_all (\<lambda>c. lt a c \<longrightarrow> lt a b \<or> lt b c) vs) vs) vs)"

subsection \<open>Sequences of store operations\<close>

datatype crud_op =
    Create jsobj string
  | Update string jsobj
  | Delete string
  | CreateMany "(jsobj \<times> string) list"
  | UpdateMany "(string \<times> jsobj) list"
  | DeleteMany "string list"

datatype store_op =
    Crud crud_op
  | BeginTransaction
  | CommitTransaction
  | RollbackTransaction

fun run_crud :: "crud_op \<Rightarrow> InMemoryRepository \<Rightarrow> InMemoryRepository" where
  "run_crud (Create data uuid) st = snd (create data uuid st)"
| "run_crud (Update id' data) st = snd (update id' data st)"
| "run_crud (Delete id') st = delete id' st"
| "run_crud (CreateMany dataArr) st = snd (createMany dataArr st)"
| "run_crud (UpdateMany updates) st = snd (updateMany updates st)"
| "run_crud (DeleteMany ids) st = deleteMany ids st"

fun run_op :: "store_op \<Rightarrow> InMemoryRepository \<Rightarrow> InMemoryRepository" where
  "run_op (Crud c) st = run_crud c st"
| "run_op BeginTransaction st = beginTransaction st"
| "run_op CommitTransaction st = commitTransaction st"
| "run_op RollbackTransaction st = rollbackTransaction st"

definition run_cruds :: "crud_op list \<Rightarrow> InMemoryRepository \<Rightarrow> InMemoryRepository" where
  "run_cruds ops st = fold run_crud ops st"

definition run_ops :: "store_op list \<Rightarrow> InMemoryRepository \<Rightarrow> InMemoryRepository" where
  "run_ops ops st = fold run_op ops st"

section \<open>The remote repository\<close>

text \<open>
  Of \<open>RestRepository\<close> only the transaction operations are modelled; the others go
  through the HTTP client. The three are not \<open>async\<close>: each throws when called.
\<close>

record RestRepository =
  baseUrl :: string

definition beginTransaction_rest :: "RestRepository \<Rightarrow> error + unit" where
  "beginTransaction_rest r = Inl (Error ''Operation not supported.'')"

definition commitTransaction_rest :: "RestRepository \<Rightarrow> error + unit" where
  "commitTransaction_rest r = Inl (Error ''Operation not supported.'')"

definition rollbackTransaction_rest :: "RestRepository \<Rightarrow> error + unit" where
  "rollbackTransaction_rest r = Inl (Error ''Operation not supported.'')"

text \<open>The error that the specification calls \<open>UnsupportedOperation\<close>.\<close>

definition UnsupportedOperation :: error where
  "UnsupportedOperation = Error ''Operation not supported.''"

section \<open>The record service\<close>

text \<open>
  What the service needs of a record type: the object that \<open>new this.entity()\<close>
  returns, and the declared field rules as the validation library reads them, a
  function from an instance to its list of violations (property and rule).
\<close>

record entity_class =
  new_instance :: jsobj
  rules :: "jsobj \<Rightarrow> violation list"

text \<open>
  The two operations of \<open>IRepository\<close> that the modelled service calls, over a store
  state \<open>'s\<close>. Any of the three repositories is an instance; a call can fail.
\<close>

record 's IRepository =
  call_create :: "jsobj \<Rightarrow> 's \<Rightarrow> (error + jsobj) \<times> 's"
  call_update :: "string \<Rightarrow> jsobj \<Rightarrow> 's \<Rightarrow> (error + jsobj option) \<times> 's"

record 's BaseService =
  repo :: "'s IRepository"
  entity :: entity_class

text \<open>
  \<open>validateOrReject\<close> checks an instance against the rules declared on its class and
  rejects with the list of violations when there is one.
\<close>

definition validateOrReject :: "entity_class \<Rightarrow> jsobj \<Rightarrow> error + unit" where
  "validateOrReject cls instance =
     (case rules cls instance of [] \<Rightarrow> Inr () | v # vs \<Rightarrow> Inl (ValidationFailed (v # vs)))"

definition beforeCreate :: "'s BaseService \<Rightarrow> jsobj \<Rightarrow> error + unit" where
  "beforeCreate svc data =
     (let instance = obj_assign (new_instance (entity svc)) data
      in validateOrReject (entity svc) instance)"

definition afterCreate :: "'s BaseService \<Rightarrow> jsobj \<Rightarrow> error + unit" where
  "afterCreate svc e = Inr ()"

definition beforeUpdate :: "'s BaseService \<Rightarrow> string \<Rightarrow> jsobj \<Rightarrow> error + unit" where
  "beforeUpdate svc id' data =
     (let instance = obj_assign (new_instance (entity svc)) data
      in validateOrReject (entity svc) instance)"

definition afterUpdate :: "'s BaseService \<Rightarrow> jsobj option \<Rightarrow> error + unit" where
  "afterUpdate svc e = Inr ()"

text \<open>\<open>BaseService.create\<close> and \<open>BaseService.update\<close> with the hooks of the base class.\<close>

definition create_service :: "'s BaseService \<Rightarrow> jsobj \<Rightarrow> 's \<Rightarrow> (error + jsobj) \<times> 's" where
  "create_service svc data s =
     (case beforeCreate svc data of
        Inl e \<Rightarrow> (Inl e, s)
      | Inr _ \<Rightarrow>
          (case call_create (repo svc) data s of
             (Inl e, s1) \<Rightarrow> (Inl e, s1)
           | (Inr instance, s1) \<Rightarrow>
               (case afterCreate svc instance of
                  Inl e \<Rightarrow> (Inl e, s1)
                | Inr _ \<Rightarrow> (Inr instance, s1))))"

definition update_service ::
  "'s BaseService \<Rightarrow> string \<Rightarrow> jsobj \<Rightarrow> 's \<Rightarrow> (error + jsobj option) \<times> 's" where
  "update_service svc id' data s =
     (case beforeUpdate svc id' data of
        Inl e \<Rightarrow> (Inl e, s)
      | Inr _ \<Rightarrow>
          (case call_update (repo svc) id' data s of
             (Inl e, s1) \<Rightarrow> (Inl e, s1)
           | (Inr updated, s1) \<Rightarrow>
               (case afterUpdate svc updated of
                  Inl e \<Rightarrow> (Inl e, s1)
                | Inr _ \<Rightarrow> (Inr updated, s1))))"

text \<open>
  The in-memory repository as an \<open>IRepository\<close>; \<open>uuid\<close> is what \<open>randomUUID()\<close>
  returns to the next \<open>create\<close>.
\<close>

definition InMemory_IRepository :: "string \<Rightarrow> InMemoryRepository IRepository" where
  "InMemory_IRepository uuid =
     \<lparr>call_create = (\<lambda>data st. case create data uuid st of (e, st1) \<Rightarrow> (Inr e, st1)),
      call_update = (\<lambda>id' data st. case update id' data st of (r, st1) \<Rightarrow> (Inr r, st1))\<rparr>"

text \<open>
  A repository that also counts the calls it receives, to observe whether the service
  reaches the store at all.
\<close>

definition counting :: "'s IRepository \<Rightarrow> ('s \<times> nat) IRepository" where
  "counting r =
     \<lparr>call_create = (\<lambda>data (s, n). case call_create r data s of (x, s1) \<Rightarrow> (x, (s1, Suc n))),
      call_update = (\<lambda>id' data (s, n).
                       case call_update r id' data s of (x, s1) \<Rightarrow> (x, (s1, Suc n)))\<rparr>"

text \<open>
  The record type \<open>ProductReview\<close>: \<open>id\<close> is declared \<open>IsString\<close>, \<open>review\<close> is
  declared \<open>IsString\<close> and \<open>IsNotEmpty\<close>, \<open>product\<close> has no rule. Decorators apply
  from the last to the first, so \<open>IsNotEmpty\<close> is checked before \<open>IsString\<close>. Its fields have no
  initialiser, so every field of a new instance reads \<open>undefined\<close>.
\<close>

definition isString :: "jsval \<Rightarrow> bool" where
  "isString v = (case v of JStr _ \<Rightarrow> True | _ \<Rightarrow> False)"

definition isNotEmpty :: "jsval \<Rightarrow> bool" where
  "isNotEmpty v = (v \<noteq> JStr [] \<and> v \<noteq> JNull \<and> v \<noteq> JUndefined)"

definition check_rule :: "(jsval \<Rightarrow> bool) \<Rightarrow> string \<Rightarrow> string \<Rightarrow> jsobj \<Rightarrow> violation list" where
  "check_rule ok field rule instance =
     (if ok (get instance field) then [] else [Violation field rule])"

definition ProductReview :: entity_class where
  "ProductReview =
     \<lparr>new_instance = [],
      rules = (\<lambda>instance.
                 check_rule isString ''id'' ''isString'' instance
                 @ check_rule isNotEmpty ''review'' ''isNotEmpty'' instance
                 @ check_rule isString ''review'' ''isString'' instance)\<rparr>"

subsection \<open>Identifiers of the stored records\<close>

definition ids :: "jsobj list \<Rightarrow> jsval list" where
  "ids records = map (\<lambda>item. get item ''id'') records"

text \<open>
  A \<open>create\<close> is fresh when the identifier it stores, the caller's or else the
  generated one, is carried by no stored record at that moment. For \<open>createMany\<close> each
  element is judged in the store that the elements before it have left.
\<close>

definition create_fresh :: "jsobj \<Rightarrow> string \<Rightarrow> InMemoryRepository \<Rightarrow> bool" where
  "create_fresh data uuid st =
     (nullish (get data ''id'') (JStr uuid) \<notin> set (ids (store st)))"

fun createMany_fresh :: "(jsobj \<times> string) list \<Rightarrow> InMemoryRepository \<Rightarrow> bool" where
  "createMany_fresh [] st = True"
| "createMany_fresh ((data, uuid) # dataArr) st =
     (create_fresh data uuid st \<and> createMany_fresh dataArr (snd (create data uuid st)))"

text \<open>
  An \<open>update\<close> keeps the identifiers apart when it finds no record to change, or its
  partial has no \<open>id\<close> key, or the identifier in the partial is the one the record has
  already or one that no stored record carries at that moment. For \<open>updateMany\<close> each
  element is judged in the store that the elements before it have left.
\<close>

definition update_ok :: "string \<Rightarrow> jsobj \<Rightarrow> InMemoryRepository \<Rightarrow> bool" where
  "update_ok id' data st =
     (case findIndex (\<lambda>item. strict_eq (get item ''id'') (JStr id')) (store st) of
        None \<Rightarrow> True
      | Some index \<Rightarrow>
          ''id'' \<notin> set (map fst data)
          \<or> get data ''id'' = get (store st ! index) ''id''
          \<or> get data ''id'' \<notin> set (ids (store st)))"

fun updateMany_ok :: "(string \<times> jsobj) list \<Rightarrow> InMemoryRepository \<Rightarrow> bool" where
  "updateMany_ok [] st = True"
| "updateMany_ok ((id', data) # updates) st =
     (update_ok id' data st \<and> updateMany_ok updates (snd (update id' data st)))"

fun crud_ok :: "crud_op \<Rightarrow> InMemoryRepository \<Rightarrow> bool" where
  "crud_ok (Create data uuid) st = create_fresh data uuid st"
| "crud_ok (Update id' data) st = update_ok id' data st"
| "crud_ok (Delete id') st = True"
| "crud_ok (CreateMany dataArr) st = createMany_fresh dataArr st"
| "crud_ok (UpdateMany updates) st = updateMany_ok updates st"
| "crud_ok (DeleteMany ids') st = True"

fun op_ok :: "store_op \<Rightarrow> InMemoryRepository \<Rightarrow> bool" where
  "op_ok (Crud c) st = crud_ok c st"
| "op_ok _ st = True"

fun ops_ok :: "store_op list \<Rightarrow> InMemoryRepository \<Rightarrow> bool" where
  "ops_ok [] st = True"
| "ops_ok (operation # ops) st = (op_ok operation st \<and> ops_ok ops (run_op operation st))"

text \<open>The invariant: distinct identifiers in the live collection and in every snapshot.\<close>

definition ids_distinct :: "InMemoryRepository \<Rightarrow> bool" where
  "ids_distinct st =
     (distinct (ids (store st)) \<and> list_all (\<lambda>snapshot. distinct (ids snapshot)) (transactionStack st))"

section \<open>Example data\<close>

definition example_repo :: InMemoryRepository where
  "example_repo = init_repo\<lparr>store := [[(''id'', JStr ''a''), (''n'', JNum 1)]]\<rparr>"

definition example_repo2 :: InMemoryRepository where
  "example_repo2 =
     init_repo\<lparr>store := [[(''id'', JStr ''a''), (''n'', JNum 2)],
                         [(''id'', JStr ''b''), (''n'', JNum 1)]]\<rparr>"

definition example_repo3 :: InMemoryRepository where
  "example_repo3 =
     init_repo\<lparr>store := [[(''id'', JStr ''a''), (''n'', JNum 2)],
                         [(''id'', JStr ''b''), (''n'', JNum 1)],
                         [(''id'', JStr ''c''), (''n'', JNum 2)]]\<rparr>"

definition review_repo :: InMemoryRepository where
  "review_repo =
     init_repo\<lparr>store := [[(''review'', JStr ''Great!''), (''id'', JStr ''r1'')]]\<rparr>"

definition example_ops :: "store_op list" where
  "example_ops =
     [Crud (CreateMany [([(''n'', JNum 1)], ''u1''), ([(''id'', JStr ''a'')], ''u2'')]),
      BeginTransaction,
      Crud (Update ''u1'' [(''id'', JStr ''u1''), (''n'', JNum 5)]),
      Crud (UpdateMany [(''a'', [(''id'', JStr ''z'')]), (''missing'', [(''id'', JStr ''u1'')])]),
      Crud (Delete ''z''),
      Crud (Create [(''id'', JStr ''a''), (''n'', JNum 7)] ''u3''),
      RollbackTransaction,
      Crud (Create [(''n'', JNum 2)] ''u4'')]"

section \<open>Objects, arrays and the transaction stack\<close>

lemma get_Nil: "get [] k = JUndefined"
  by (simp add: get_def)

lemma get_update: "get (AList.update k v t) k' = (if k' = k then v else get t k')"
  by (simp add: get_def update_conv')

lemma get_fold_update:
  "get (fold (\<lambda>k. AList.update k (f k)) ks t) k' = (if k' \<in> set ks then f k' else get t k')"
  by (induction ks arbitrary: t) (auto simp: get_update)

lemma get_missing:
  assumes "k \<notin> fst ` set obj"
  shows "get obj k = JUndefined"
proof -
  have "map_of obj k = None"
    using assms by (simp add: map_of_eq_None_iff)
  then show ?thesis by (simp add: get_def)
qed

lemma get_obj_assign:
  "get (obj_assign t s) k = (if k \<in> fst ` set s then get s k else get t k)"
  by (simp add: obj_assign_def own_keys_def get_fold_update)

lemma get_spread_pair:
  "get (spread [a, b]) k = (if k \<in> fst ` set b then get b k else get a k)"
  by (simp add: spread_def get_obj_assign get_Nil get_missing)

lemma findIndex_None: "findIndex p xs = None \<longleftrightarrow> (\<forall>x\<in>set xs. \<not> p x)"
  by (induction xs) auto

lemma findIndex_Some:
  "findIndex p xs = Some i \<Longrightarrow> i < length xs \<and> p (xs ! i) \<and> (\<forall>j<i. \<not> p (xs ! j))"
proof (induction xs arbitrary: i)
  case Nil
  then show ?case by simp
next
  case (Cons x xs)
  show ?case
  proof (cases "p x")
    case True
    with Cons.prems show ?thesis by simp
  next
    case False
    with Cons.prems obtain i' where i': "findIndex p xs = Some i'" "i = Suc i'"
      by auto
    from Cons.IH [OF i'(1)] False i'(2) show ?thesis
      by (auto simp: less_Suc_eq_0_disj)
  qed
qed

lemma stack_create: "transactionStack (snd (create data uuid st)) = transactionStack st"
  by (simp add: create_def Let_def)

lemma stack_update: "transactionStack (snd (update i data st)) = transactionStack st"
  by (simp add: update_def Let_def split: option.split)

lemma stack_createMany: "transactionStack (snd (createMany ds st)) = transactionStack st"
proof (induction ds arbitrary: st)
  case Nil
  then show ?case by simp
next
  case (Cons d ds)
  obtain data uuid where d: "d = (data, uuid)" by (cases d)
  have "snd (createMany (d # ds) st) = snd (createMany ds (snd (create data uuid st)))"
    by (simp add: d split: prod.split)
  then show ?case by (simp add: Cons.IH stack_create)
qed

lemma stack_updateMany: "transactionStack (snd (updateMany us st)) = transactionStack st"
proof (induction us arbitrary: st)
  case Nil
  then show ?case by simp
next
  case (Cons u us)
  obtain i data where u: "u = (i, data)" by (cases u)
  have "snd (updateMany (u # us) st) = snd (updateMany us (snd (update i data st)))"
    by (simp add: u split: prod.split)
  then show ?case by (simp add: Cons.IH stack_update)
qed

lemma stack_run_crud: "transactionStack (run_crud c st) = transactionStack st"
  by (cases c)
     (simp_all add: stack_create stack_update stack_createMany stack_updateMany
        delete_def deleteMany_def)

lemma stack_run_cruds: "transactionStack (run_cruds ops st) = transactionStack st"
  unfolding run_cruds_def
  by (induction ops arbitrary: st) (simp_all add: stack_run_crud)

text \<open>
  The model of \<open>sort\<close> permutes its input. On a set of elements where the comparator is
  a total preorder it sorts, and it keeps equivalent elements in their order.
\<close>

lemma mset_insert_sorted: "mset (insert_sorted cmp x ys) = add_mset x (mset ys)"
  by (induction ys) simp_all

lemma mset_array_sort: "mset (array_sort cmp xs) = mset xs"
  unfolding array_sort_def by (induction xs) (simp_all add: mset_insert_sorted)

lemma set_insert_sorted: "set (insert_sorted cmp x ys) = insert x (set ys)"
  by (induction ys) auto

lemma set_array_sort: "set (array_sort cmp xs) = set xs"
  using mset_array_sort [of cmp xs] by (metis set_mset_mset)

lemma sorted_insert_sorted:
  assumes total: "\<And>a b. a \<in> A \<Longrightarrow> b \<in> A \<Longrightarrow> cmp a b \<le> 0 \<or> cmp b a \<le> 0"
    and trans: "\<And>a b c. a \<in> A \<Longrightarrow> b \<in> A \<Longrightarrow> c \<in> A \<Longrightarrow>
                  cmp a b \<le> 0 \<Longrightarrow> cmp b c \<le> 0 \<Longrightarrow> cmp a c \<le> 0"
  shows "x \<in> A \<Longrightarrow> set ys \<subseteq> A \<Longrightarrow> sorted_wrt (\<lambda>a b. cmp a b \<le> 0) ys \<Longrightarrow>
           sorted_wrt (\<lambda>a b. cmp a b \<le> 0) (insert_sorted cmp x ys)"
proof (induction ys)
  case Nil
  then show ?case by simp
next
  case (Cons y ys)
  show ?case
  proof (cases "cmp x y \<le> 0")
    case True
    have "cmp x z \<le> 0" if "z \<in> set ys" for z
    proof -
      from Cons.prems(3) that have "cmp y z \<le> 0" by simp
      with True trans [of x y z] Cons.prems(1,2) that show ?thesis by auto
    qed
    with True Cons.prems(3) show ?thesis by simp
  next
    case False
    with total [of x y] Cons.prems(1,2) have "cmp y x \<le> 0" by auto
    moreover from Cons.prems have "sorted_wrt (\<lambda>a b. cmp a b \<le> 0) (insert_sorted cmp x ys)"
      by (intro Cons.IH) simp_all
    ultimately show ?thesis
      using False Cons.prems(3) by (auto simp: set_insert_sorted)
  qed
qed

lemma sorted_array_sort:
  assumes total: "\<And>a b. a \<in> A \<Longrightarrow> b \<in> A \<Longrightarrow> cmp a b \<le> 0 \<or> cmp b a \<le> 0"
    and trans: "\<And>a b c. a \<in> A \<Longrightarrow> b \<in> A \<Longrightarrow> c \<in> A \<Longrightarrow>
                  cmp a b \<le> 0 \<Longrightarrow> cmp b c \<le> 0 \<Longrightarrow> cmp a c \<le> 0"
  shows "set xs \<subseteq> A \<Longrightarrow> sorted_wrt (\<lambda>a b. cmp a b \<le> 0) (array_sort cmp xs)"
proof (induction xs)
  case Nil
  then show ?case by (simp add: array_sort_def)
next
  case (Cons x xs)
  then have srt: "sorted_wrt (\<lambda>a b. cmp a b \<le> 0) (array_sort cmp xs)" by simp
  from Cons.prems have xA: "x \<in> A" and sub: "set (array_sort cmp xs) \<subseteq> A"
    by (simp_all add: set_array_sort)
  have "sorted_wrt (\<lambda>a b. cmp a b \<le> 0) (insert_sorted cmp x (array_sort cmp xs))"
    by (rule sorted_insert_sorted [where A = A, OF total trans xA sub srt])
  then show ?case by (simp add: array_sort_def)
qed

lemma filter_insert_sorted:
  assumes total: "\<And>a b. a \<in> A \<Longrightarrow> b \<in> A \<Longrightarrow> cmp a b \<le> 0 \<or> cmp b a \<le> 0"
    and trans: "\<And>a b c. a \<in> A \<Longrightarrow> b \<in> A \<Longrightarrow> c \<in> A \<Longrightarrow>
                  cmp a b \<le> 0 \<Longrightarrow> cmp b c \<le> 0 \<Longrightarrow> cmp a c \<le> 0"
    and r: "r \<in> A"
  shows "x \<in> A \<Longrightarrow> set ys \<subseteq> A \<Longrightarrow>
           filter (\<lambda>y. cmp r y \<le> 0 \<and> cmp y r \<le> 0) (insert_sorted cmp x ys)
             = filter (\<lambda>y. cmp r y \<le> 0 \<and> cmp y r \<le> 0) (x # ys)"
proof (induction ys)
  case Nil
  then show ?case by simp
next
  case (Cons y ys)
  let ?P = "\<lambda>y. cmp r y \<le> 0 \<and> cmp y r \<le> 0"
  show ?case
  proof (cases "cmp x y \<le> 0")
    case True
    then show ?thesis by simp
  next
    case False
    from Cons.prems have xA: "x \<in> A" and yA: "y \<in> A" by simp_all
    have IH: "filter ?P (insert_sorted cmp x ys) = filter ?P (x # ys)"
      using Cons.prems by (intro Cons.IH) simp_all
    have "\<not> (?P x \<and> ?P y)"
    proof
      assume "?P x \<and> ?P y"
      with trans [of x r y] xA yA r have "cmp x y \<le> 0" by blast
      with False show False by simp
    qed
    with False IH show ?thesis by auto
  qed
qed

lemma filter_array_sort:
  assumes total: "\<And>a b. a \<in> A \<Longrightarrow> b \<in> A \<Longrightarrow> cmp a b \<le> 0 \<or> cmp b a \<le> 0"
    and trans: "\<And>a b c. a \<in> A \<Longrightarrow> b \<in> A \<Longrightarrow> c \<in> A \<Longrightarrow>
                  cmp a b \<le> 0 \<Longrightarrow> cmp b c \<le> 0 \<Longrightarrow> cmp a c \<le> 0"
    and r: "r \<in> A"
  shows "set xs \<subseteq> A \<Longrightarrow>
           filter (\<lambda>y. cmp r y \<le> 0 \<and> cmp y r \<le> 0) (array_sort cmp xs)
             = filter (\<lambda>y. cmp r y \<le> 0 \<and> cmp y r \<le> 0) xs"
proof (induction xs)
  case Nil
  then show ?case by (simp add: array_sort_def)
next
  case (Cons x xs)
  let ?P = "\<lambda>y. cmp r y \<le> 0 \<and> cmp y r \<le> 0"
  from Cons.prems have xA: "x \<in> A" and sub: "set (array_sort cmp xs) \<subseteq> A"
    by (simp_all add: set_array_sort)
  have "filter ?P (insert_sorted cmp x (array_sort cmp xs))
               = filter ?P (x # array_sort cmp xs)"
    by (rule filter_insert_sorted [where A = A, OF total trans r xA sub])
  with Cons show ?case by (simp add: array_sort_def)
qed

text \<open>The comparator of \<open>find\<close> on records whose keys \<open><\<close> orders consistently.\<close>

lemma strict_weak_on_asym:
  "strict_weak_on lt vs \<Longrightarrow> a \<in> set vs \<Longrightarrow> b \<in> set vs \<Longrightarrow> lt a b \<Longrightarrow> \<not> lt b a"
  unfolding strict_weak_on_def list_all_iff by blast

lemma strict_weak_on_negtrans:
  "strict_weak_on lt vs \<Longrightarrow> a \<in> set vs \<Longrightarrow> b \<in> set vs \<Longrightarrow> c \<in> set vs \<Longrightarrow>
     \<not> lt a b \<Longrightarrow> \<not> lt b c \<Longrightarrow> \<not> lt a c"
  unfolding strict_weak_on_def list_all_iff by blast

lemma compare_by_le:
  assumes "strict_weak_on lt (map (\<lambda>item. get item key) xs)" and "a \<in> set xs" and "b \<in> set xs"
  shows "(compare_by lt key dir a b \<le> 0)
           = (if dir = JStr ''ASC'' then \<not> lt (get b key) (get a key)
              else \<not> lt (get a key) (get b key))"
proof -
  from assms have "lt (get a key) (get b key) \<Longrightarrow> \<not> lt (get b key) (get a key)"
    by (intro strict_weak_on_asym [where vs = "map (\<lambda>item. get item key) xs"]) simp_all
  then show ?thesis
    by (auto simp: compare_by_def strict_eq_def)
qed

lemma compare_by_total:
  assumes "strict_weak_on lt (map (\<lambda>item. get item key) xs)" and "a \<in> set xs" and "b \<in> set xs"
  shows "compare_by lt key dir a b \<le> 0 \<or> compare_by lt key dir b a \<le> 0"
proof -
  from assms have "lt (get a key) (get b key) \<Longrightarrow> \<not> lt (get b key) (get a key)"
    by (intro strict_weak_on_asym [where vs = "map (\<lambda>item. get item key) xs"]) simp_all
  then show ?thesis
    by (auto simp: compare_by_le [OF assms] compare_by_le [OF assms(1,3,2)])
qed

lemma compare_by_trans:
  assumes sw: "strict_weak_on lt (map (\<lambda>item. get item key) xs)"
    and a: "a \<in> set xs" and b: "b \<in> set xs" and c: "c \<in> set xs"
    and ab: "compare_by lt key dir a b \<le> 0" and bc: "compare_by lt key dir b c \<le> 0"
  shows "compare_by lt key dir a c \<le> 0"
proof -
  note nt = strict_weak_on_negtrans [OF sw]
  have ka: "get a key \<in> set (map (\<lambda>item. get item key) xs)"
    and kb: "get b key \<in> set (map (\<lambda>item. get item key) xs)"
    and kc: "get c key \<in> set (map (\<lambda>item. get item key) xs)"
    using a b c by simp_all
  show ?thesis
  proof (cases "dir = JStr ''ASC''")
    case True
    with ab bc have "\<not> lt (get b key) (get a key)" "\<not> lt (get c key) (get b key)"
      by (simp_all add: compare_by_le [OF sw a b] compare_by_le [OF sw b c])
    with nt [OF kc kb ka] have "\<not> lt (get c key) (get a key)" by blast
    with True show ?thesis by (simp add: compare_by_le [OF sw a c])
  next
    case False
    with ab bc have "\<not> lt (get a key) (get b key)" "\<not> lt (get b key) (get c key)"
      by (simp_all add: compare_by_le [OF sw a b] compare_by_le [OF sw b c])
    with nt [OF ka kb kc] have "\<not> lt (get a key) (get c key)" by blast
    with False show ?thesis by (simp add: compare_by_le [OF sw a c])
  qed
qed

lemma slice_from: "0 \<le> off \<Longrightarrow> slice off None xs = drop (nat off) xs"
  by (simp add: slice_def slice_index_def Let_def min_def)

lemma slice_to: "0 \<le> lim \<Longrightarrow> slice 0 (Some lim) xs = take (nat lim) xs"
  by (simp add: slice_def slice_index_def Let_def min_def)

text \<open>
  With a positive limit, the result of \<open>find\<close> is the result without offset and limit
  cut to the \<open>lim\<close> records after the first \<open>off\<close>.
\<close>

lemma find_pagination:
  assumes "0 \<le> off" and "0 < lim"
  shows "find_mem lt f (Some \<lparr>orderBy = ob, offset = Some off, limit = Some lim\<rparr>) st
         = map_sum (\<lambda>e. e) (\<lambda>rs. take (nat lim) (drop (nat off) rs))
             (find_mem lt f (Some \<lparr>orderBy = ob, offset = None, limit = None\<rparr>) st)"
  using assms
  by (auto simp: find_mem_def Let_def slice_from slice_to split: sum.split)

lemma find_append:
  "List.find P (xs @ ys) = (case List.find P xs of None \<Rightarrow> List.find P ys | Some x \<Rightarrow> Some x)"
  by (induction xs) auto

lemma get_Cons: "get ((k, v) # obj) k' = (if k' = k then v else get obj k')"
  by (simp add: get_def)

lemma id_of_created:
  "get (fst (create data uuid st)) ''id'' = nullish (get data ''id'') (JStr uuid)"
  by (simp add: create_def Let_def get_spread_pair get_Cons)

lemma store_create:
  "store (snd (create data uuid st)) = store st @ [fst (create data uuid st)]"
  by (simp add: create_def Let_def)

lemma inv_create:
  assumes "ids_distinct st" and "create_fresh data uuid st"
  shows "ids_distinct (snd (create data uuid st))"
proof -
  have "ids (store (snd (create data uuid st)))
          = ids (store st) @ [nullish (get data ''id'') (JStr uuid)]"
    by (simp add: store_create ids_def id_of_created)
  moreover have "transactionStack (snd (create data uuid st)) = transactionStack st"
    by (rule stack_create)
  ultimately show ?thesis
    using assms by (simp add: ids_distinct_def create_fresh_def)
qed

lemma id_of_merged:
  "get (spread [r, data]) ''id''
     = (if ''id'' \<in> set (map fst data) then get data ''id'' else get r ''id'')"
  by (simp add: get_spread_pair)

lemma ids_update:
  assumes "findIndex (\<lambda>item. strict_eq (get item ''id'') (JStr i)) (store st) = Some index"
  shows "ids (store (snd (update i data st)))
           = (ids (store st))[index := get (spread [store st ! index, data]) ''id'']"
  by (simp add: update_def assms Let_def ids_def map_update)

lemma inv_update:
  assumes inv: "ids_distinct st" and ok: "update_ok i data st"
  shows "ids_distinct (snd (update i data st))"
proof (cases "findIndex (\<lambda>item. strict_eq (get item ''id'') (JStr i)) (store st)")
  case None
  with inv show ?thesis by (simp add: update_def)
next
  case (Some index)
  let ?new = "get (spread [store st ! index, data]) ''id''"
  from findIndex_Some [OF Some] have bound: "index < length (ids (store st))"
    by (simp add: ids_def)
  have own: "ids (store st) ! index = get (store st ! index) ''id''"
    using bound by (simp add: ids_def)
  from ok Some have "?new = ids (store st) ! index \<or> ?new \<notin> set (ids (store st))"
    by (auto simp: update_ok_def id_of_merged own)
  then have "distinct ((ids (store st))[index := ?new])"
  proof
    assume "?new = ids (store st) ! index"
    with inv show ?thesis by (simp add: ids_distinct_def)
  next
    assume "?new \<notin> set (ids (store st))"
    with inv show ?thesis
      by (intro distinct_list_update) (auto simp: ids_distinct_def)
  qed
  with inv show ?thesis
    by (simp add: ids_distinct_def ids_update [OF Some] stack_update)
qed

text \<open>
  The two conditions are exact: on distinct identifiers, a \<open>create\<close> that is not fresh
  and an \<open>update\<close> outside \<open>update_ok\<close> each leave two records with one identifier.
\<close>

lemma create_not_fresh_breaks:
  assumes "\<not> create_fresh data uuid st"
  shows "\<not> distinct (ids (store (snd (create data uuid st))))"
  using assms by (simp add: create_fresh_def store_create ids_def id_of_created)

lemma update_not_ok_breaks:
  assumes inv: "distinct (ids (store st))" and bad: "\<not> update_ok i data st"
  shows "\<not> distinct (ids (store (snd (update i data st))))"
proof -
  from bad obtain index
    where ix: "findIndex (\<lambda>item. strict_eq (get item ''id'') (JStr i)) (store st) = Some index"
    by (auto simp: update_ok_def split: option.splits)
  let ?xs = "ids (store st)"
  let ?new = "get (spread [store st ! index, data]) ''id''"
  from findIndex_Some [OF ix] have bound: "index < length ?xs"
    by (simp add: ids_def)
  have own: "?xs ! index = get (store st ! index) ''id''"
    using bound by (simp add: ids_def)
  from bad ix have new: "?new \<noteq> ?xs ! index" "?new \<in> set ?xs"
    by (auto simp: update_ok_def id_of_merged own)
  then obtain j where j: "j < length ?xs" "?xs ! j = ?new"
    by (auto simp: in_set_conv_nth)
  with new(1) have ne: "j \<noteq> index" by auto
  define ys where "ys = ?xs[index := ?new]"
  have same: "ys ! j = ys ! index" and len: "j < length ys" "index < length ys"
    using j bound ne by (simp_all add: ys_def)
  have "\<not> distinct ys"
  proof
    assume "distinct ys"
    from nth_eq_iff_index_eq [OF this len] same ne show False
      by blast
  qed
  then show ?thesis
    unfolding ys_def
    by (simp add: ids_update [OF ix])
qed

lemma inv_delete: "ids_distinct st \<Longrightarrow> ids_distinct (delete i st)"
  by (simp add: ids_distinct_def delete_def ids_def distinct_map_filter)

lemma inv_deleteMany: "ids_distinct st \<Longrightarrow> ids_distinct (deleteMany is st)"
  by (simp add: ids_distinct_def deleteMany_def ids_def distinct_map_filter)

lemma inv_createMany:
  "ids_distinct st \<Longrightarrow> createMany_fresh ds st \<Longrightarrow> ids_distinct (snd (createMany ds st))"
proof (induction ds arbitrary: st)
  case Nil
  then show ?case by simp
next
  case (Cons d ds)
  obtain data uuid where d: "d = (data, uuid)" by (cases d)
  have step: "snd (createMany (d # ds) st) = snd (createMany ds (snd (create data uuid st)))"
    by (simp add: d split: prod.split)
  from Cons.prems d have "ids_distinct (snd (create data uuid st))"
    by (simp add: inv_create)
  moreover from Cons.prems d have "createMany_fresh ds (snd (create data uuid st))"
    by simp
  ultimately show ?case
    by (simp add: step Cons.IH)
qed

lemma inv_updateMany:
  "ids_distinct st \<Longrightarrow> updateMany_ok us st \<Longrightarrow> ids_distinct (snd (updateMany us st))"
proof (induction us arbitrary: st)
  case Nil
  then show ?case by simp
next
  case (Cons u us)
  obtain i data where u: "u = (i, data)" by (cases u)
  have step: "snd (updateMany (u # us) st) = snd (updateMany us (snd (update i data st)))"
    by (simp add: u split: prod.split)
  from Cons.prems u have "ids_distinct (snd (update i data st))"
    by (simp add: inv_update)
  moreover from Cons.prems u have "updateMany_ok us (snd (update i data st))"
    by simp
  ultimately show ?case
    by (simp add: step Cons.IH)
qed

lemma inv_run_crud: "ids_distinct st \<Longrightarrow> crud_ok c st \<Longrightarrow> ids_distinct (run_crud c st)"
  by (cases c)
     (simp_all add: inv_create inv_update inv_delete inv_deleteMany inv_createMany
        inv_updateMany)

lemma inv_begin: "ids_distinct st \<Longrightarrow> ids_distinct (beginTransaction st)"
  by (simp add: ids_distinct_def beginTransaction_def)

lemma inv_commit: "ids_distinct st \<Longrightarrow> ids_distinct (commitTransaction st)"
  by (auto simp: ids_distinct_def commitTransaction_def list_all_iff dest: in_set_butlastD)

lemma inv_rollback: "ids_distinct st \<Longrightarrow> ids_distinct (rollbackTransaction st)"
  by (auto simp: ids_distinct_def rollbackTransaction_def list_all_iff dest: in_set_butlastD)

lemma inv_run_op: "ids_distinct st \<Longrightarrow> op_ok operation st \<Longrightarrow> ids_distinct (run_op operation st)"
  by (cases operation) (simp_all add: inv_run_crud inv_begin inv_commit inv_rollback)

lemma inv_run_ops: "ids_distinct st \<Longrightarrow> ops_ok ops st \<Longrightarrow> ids_distinct (run_ops ops st)"
  unfolding run_ops_def
  by (induction ops arbitrary: st) (simp_all add: inv_run_op)

section \<open>Transactions of the in-memory repository\<close>

text \<open>
  C2: whatever creates, updates and deletes (single or bulk) run between
  \<open>beginTransaction\<close> and \<open>rollbackTransaction\<close>, the rollback gives back the
  repository of before the transaction, so \<open>findAll\<close> returns what it returned then;
  and \<open>rollbackTransaction\<close> on an empty transaction stack changes nothing.
\<close>

theorem rollback_restores_state:
  "rollbackTransaction (run_cruds ops (beginTransaction st)) = st
   \<and> findAll (rollbackTransaction (run_cruds ops (beginTransaction st))) = findAll st
   \<and> (transactionStack st = [] \<longrightarrow> rollbackTransaction st = st)"
proof -
  have stack: "transactionStack (run_cruds ops (beginTransaction st))
                 = transactionStack st @ [store st]"
    by (simp add: stack_run_cruds beginTransaction_def)
  have "rollbackTransaction (run_cruds ops (beginTransaction st)) = st"
    by (simp add: rollbackTransaction_def stack)
  moreover have "transactionStack st = [] \<longrightarrow> rollbackTransaction st = st"
    by (simp add: rollbackTransaction_def)
  ultimately show ?thesis by simp
qed

theorem rollback_restores_state_witness:
  "transactionStack (init_repo\<lparr>store := [[(''id'', JStr ''a''), (''n'', JNum 1)]]\<rparr>) = []
   \<and> rollbackTransaction (init_repo\<lparr>store := [[(''id'', JStr ''a''), (''n'', JNum 1)]]\<rparr>)
       = init_repo\<lparr>store := [[(''id'', JStr ''a''), (''n'', JNum 1)]]\<rparr>
   \<and> findAll (rollbackTransaction
        (run_cruds [Create [(''n'', JNum 2)] ''u1'', Update ''a'' [(''n'', JNum 3)], Delete ''a'']
          (beginTransaction (init_repo\<lparr>store := [[(''id'', JStr ''a''), (''n'', JNum 1)]]\<rparr>))))
       = [[(''id'', JStr ''a''), (''n'', JNum 1)]]"
  using rollback_restores_state
    [of "[Create [(''n'', JNum 2)] ''u1'', Update ''a'' [(''n'', JNum 3)], Delete ''a'']"
        "init_repo\<lparr>store := [[(''id'', JStr ''a''), (''n'', JNum 1)]]\<rparr>"]
  by (simp add: init_repo_def findAll_def)

text \<open>
  C9: \<open>commitTransaction\<close> on an empty transaction stack raises nothing (the operation
  has no failing branch) and returns the repository as it was, live collection included.
\<close>

theorem commit_empty_stack_noop:
  "transactionStack st = [] \<Longrightarrow>
     commitTransaction st = st \<and> store (commitTransaction st) = store st"
  by (simp add: commitTransaction_def)

theorem commit_empty_stack_noop_witness:
  "transactionStack (init_repo\<lparr>store := [[(''id'', JStr ''a'')]]\<rparr>) = []
   \<and> commitTransaction (init_repo\<lparr>store := [[(''id'', JStr ''a'')]]\<rparr>)
       = init_repo\<lparr>store := [[(''id'', JStr ''a'')]]\<rparr>
   \<and> store (commitTransaction (init_repo\<lparr>store := [[(''id'', JStr ''a'')]]\<rparr>))
       = [[(''id'', JStr ''a'')]]"
  using commit_empty_stack_noop [of "init_repo\<lparr>store := [[(''id'', JStr ''a'')]]\<rparr>"]
  by (simp add: init_repo_def)

section \<open>Update of the in-memory repository\<close>

text \<open>
  C7: \<open>update\<close> with an identifier that no stored record carries returns \<open>null\<close>
  (here \<open>None\<close>) without raising, and leaves the repository as it was, so no record is
  created. With an identifier that is present it replaces the first record carrying it
  by the merge of the partial onto that record, returns the merged record, and keeps
  the number of records; every field of the merged record is the partial's when the
  partial has the key, the old record's otherwise.
\<close>

theorem update_not_found_or_merged:
  "((\<forall>item\<in>set (store st). get item ''id'' \<noteq> JStr i) \<longrightarrow>
      update i p st = (None, st))
   \<and> ((\<exists>item\<in>set (store st). get item ''id'' = JStr i) \<longrightarrow>
      (\<exists>index < length (store st).
         get (store st ! index) ''id'' = JStr i
         \<and> (\<forall>j<index. get (store st ! j) ''id'' \<noteq> JStr i)
         \<and> update i p st
             = (Some (spread [store st ! index, p]),
                st\<lparr>store := (store st)[index := spread [store st ! index, p]]\<rparr>)
         \<and> length (store (snd (update i p st))) = length (store st)
         \<and> (\<forall>k. get (spread [store st ! index, p]) k
                  = (if k \<in> fst ` set p then get p k else get (store st ! index) k))))"
proof (intro conjI impI)
  assume "\<forall>item\<in>set (store st). get item ''id'' \<noteq> JStr i"
  then have "findIndex (\<lambda>item. strict_eq (get item ''id'') (JStr i)) (store st) = None"
    by (simp add: findIndex_None strict_eq_def)
  then show "update i p st = (None, st)"
    by (simp add: update_def)
next
  assume "\<exists>item\<in>set (store st). get item ''id'' = JStr i"
  then have "findIndex (\<lambda>item. strict_eq (get item ''id'') (JStr i)) (store st) \<noteq> None"
    by (auto simp: findIndex_None strict_eq_def)
  then obtain index
    where ix: "findIndex (\<lambda>item. strict_eq (get item ''id'') (JStr i)) (store st) = Some index"
    by auto
  from findIndex_Some [OF ix]
  have bound: "index < length (store st)"
    and hit: "get (store st ! index) ''id'' = JStr i"
    and first: "\<forall>j<index. get (store st ! j) ''id'' \<noteq> JStr i"
    by (auto simp: strict_eq_def)
  have upd: "update i p st
               = (Some (spread [store st ! index, p]),
                  st\<lparr>store := (store st)[index := spread [store st ! index, p]]\<rparr>)"
    by (simp add: update_def ix Let_def)
  have len: "length (store (snd (update i p st))) = length (store st)"
    by (simp add: upd)
  have fields: "\<forall>k. get (spread [store st ! index, p]) k
                  = (if k \<in> fst ` set p then get p k else get (store st ! index) k)"
    by (simp add: get_spread_pair)
  from bound hit first upd len fields
  show "\<exists>index < length (store st).
         get (store st ! index) ''id'' = JStr i
         \<and> (\<forall>j<index. get (store st ! j) ''id'' \<noteq> JStr i)
         \<and> update i p st
             = (Some (spread [store st ! index, p]),
                st\<lparr>store := (store st)[index := spread [store st ! index, p]]\<rparr>)
         \<and> length (store (snd (update i p st))) = length (store st)
         \<and> (\<forall>k. get (spread [store st ! index, p]) k
                  = (if k \<in> fst ` set p then get p k else get (store st ! index) k))"
    by blast
qed

theorem update_not_found_or_merged_witness:
  "list_all (\<lambda>item. get item ''id'' \<noteq> JStr ''b'') (store example_repo)
   \<and> update ''b'' [(''n'', JNum 3)] example_repo = (None, example_repo)
   \<and> (\<exists>item\<in>set (store example_repo). get item ''id'' = JStr ''a'')
   \<and> update ''a'' [(''n'', JNum 3)] example_repo
       = (Some [(''id'', JStr ''a''), (''n'', JNum 3)],
          example_repo\<lparr>store := [[(''id'', JStr ''a''), (''n'', JNum 3)]]\<rparr>)"
  using update_not_found_or_merged [of example_repo "''b''" "[(''n'', JNum 3)]"]
    update_not_found_or_merged [of example_repo "''a''" "[(''n'', JNum 3)]"]
  by (simp add: example_repo_def init_repo_def update_def strict_eq_def get_def spread_def
        obj_assign_def own_keys_def)

section \<open>Transactions of the remote repository\<close>

text \<open>
  C8: each of \<open>beginTransaction\<close>, \<open>commitTransaction\<close> and \<open>rollbackTransaction\<close> of
  the remote repository fails with the error "Operation not supported.", whatever the
  repository instance; the operations read no state, so no earlier call changes this.
\<close>

theorem rest_transactions_unsupported:
  "beginTransaction_rest r = Inl UnsupportedOperation
   \<and> commitTransaction_rest r = Inl UnsupportedOperation
   \<and> rollbackTransaction_rest r = Inl UnsupportedOperation"
  by (simp add: beginTransaction_rest_def commitTransaction_rest_def
        rollbackTransaction_rest_def UnsupportedOperation_def)

section \<open>Queries of the in-memory repository\<close>

text \<open>
  C1: \<open>find\<close> with an \<open>orderBy\<close> pair, an offset and a limit should return the
  filtered, sorted sequence cut to the slice from \<open>offset\<close> to \<open>offset + limit\<close>. With
  the limit \<open>0\<close> the code returns the whole sorted sequence, where the slice is empty:
  here on a store of two records, with the empty filter and the offset \<open>0\<close>.
\<close>

theorem find_limit_zero_returns_all:
  "find_mem js_lt (Some [])
     (Some \<lparr>orderBy = Some [(''n'', JStr ''ASC'')], offset = Some 0, limit = Some 0\<rparr>) example_repo2
     = Inr [[(''id'', JStr ''b''), (''n'', JNum 1)], [(''id'', JStr ''a''), (''n'', JNum 2)]]
   \<and> find_mem js_lt (Some [])
       (Some \<lparr>orderBy = Some [(''n'', JStr ''ASC'')], offset = Some 0, limit = Some 0\<rparr>) example_repo2
     \<noteq> Inr (take (nat 0) (drop (nat 0) (array_sort (compare_by js_lt ''n'' (JStr ''ASC''))
              (filter (\<lambda>item. matchesFilter item []) (store example_repo2)))))"
  by (simp add: find_mem_def example_repo2_def init_repo_def matchesFilter_def array_sort_def
        compare_by_def get_def strict_eq_def)

text \<open>The limit \<open>0\<close> is read as no limit at all, for every filter, order and offset.\<close>

lemma find_limit_zero:
  "find_mem lt f (Some \<lparr>orderBy = ob, offset = off, limit = Some 0\<rparr>) st
     = find_mem lt f (Some \<lparr>orderBy = ob, offset = off, limit = None\<rparr>) st"
  by (simp add: find_mem_def Let_def split: sum.split)

text \<open>
  C10: with an \<open>orderBy\<close> of several entries, \<open>find\<close> returns what it returns for the
  first entry alone, whatever the further entries, the filter, the offset and the
  limit. When \<open><\<close> orders the first key of
  the matching records consistently, that result is sorted by the first key: without
  offset and limit it is a permutation \<open>rs\<close> of the matching records in which no record
  comes before one that the direction puts first, and records with equivalent first keys
  keep the order of the store, so no further entry breaks a tie; with an offset and a
  limit it is \<open>rs\<close> cut by them.
\<close>

theorem find_orders_by_first_entry_only:
  "find_mem lt f
     (Some \<lparr>orderBy = Some ((key, dir) # further), offset = off, limit = lim\<rparr>) st
     = find_mem lt f (Some \<lparr>orderBy = Some [(key, dir)], offset = off, limit = lim\<rparr>) st
   \<and> (strict_weak_on lt (map (\<lambda>item. get item key)
             (case f of Some fl \<Rightarrow> filter (\<lambda>item. matchesFilter item fl) (store st)
                      | None \<Rightarrow> store st))
        \<longrightarrow> (\<exists>rs.
            mset rs = mset (case f of Some fl \<Rightarrow> filter (\<lambda>item. matchesFilter item fl) (store st)
                                    | None \<Rightarrow> store st)
            \<and> sorted_wrt (\<lambda>a b. if dir = JStr ''ASC'' then \<not> lt (get b key) (get a key)
                                 else \<not> lt (get a key) (get b key)) rs
            \<and> (\<forall>r\<in>set rs.
                  filter (\<lambda>x. \<not> lt (get r key) (get x key) \<and> \<not> lt (get x key) (get r key)) rs
                  = filter (\<lambda>x. \<not> lt (get r key) (get x key) \<and> \<not> lt (get x key) (get r key))
                      (case f of Some fl \<Rightarrow> filter (\<lambda>item. matchesFilter item fl) (store st)
                               | None \<Rightarrow> store st))
            \<and> find_mem lt f
                 (Some \<lparr>orderBy = Some ((key, dir) # further), offset = None, limit = None\<rparr>) st
               = Inr rs
            \<and> find_mem lt f
                 (Some \<lparr>orderBy = Some ((key, dir) # further), offset = off, limit = lim\<rparr>) st
               = find_mem lt None (Some \<lparr>orderBy = None, offset = off, limit = lim\<rparr>)
                   (st\<lparr>store := rs\<rparr>)))"
proof (intro conjI impI)
  show "find_mem lt f
           (Some \<lparr>orderBy = Some ((key, dir) # further), offset = off, limit = lim\<rparr>) st
         = find_mem lt f (Some \<lparr>orderBy = Some [(key, dir)], offset = off, limit = lim\<rparr>) st"
    by (simp add: find_mem_def Let_def)
next
  assume consistent: "strict_weak_on lt (map (\<lambda>item. get item key)
             (case f of Some fl \<Rightarrow> filter (\<lambda>item. matchesFilter item fl) (store st)
                      | None \<Rightarrow> store st))"
  define xs where "xs = (case f of Some fl \<Rightarrow> filter (\<lambda>item. matchesFilter item fl) (store st)
                                 | None \<Rightarrow> store st)"
  define cmp where "cmp = compare_by lt key dir"
  define rs where "rs = array_sort cmp xs"
  from consistent have sw: "strict_weak_on lt (map (\<lambda>item. get item key) xs)"
    by (simp add: xs_def)
  have total: "\<And>a b. a \<in> set xs \<Longrightarrow> b \<in> set xs \<Longrightarrow> cmp a b \<le> 0 \<or> cmp b a \<le> 0"
    unfolding cmp_def by (rule compare_by_total [OF sw])
  have trans: "\<And>a b c. a \<in> set xs \<Longrightarrow> b \<in> set xs \<Longrightarrow> c \<in> set xs \<Longrightarrow>
                 cmp a b \<le> 0 \<Longrightarrow> cmp b c \<le> 0 \<Longrightarrow> cmp a c \<le> 0"
    unfolding cmp_def by (rule compare_by_trans [OF sw])
  have le: "\<And>a b. a \<in> set xs \<Longrightarrow> b \<in> set xs \<Longrightarrow>
              (cmp a b \<le> 0) = (if dir = JStr ''ASC'' then \<not> lt (get b key) (get a key)
                                else \<not> lt (get a key) (get b key))"
    unfolding cmp_def by (rule compare_by_le [OF sw])
  have set_rs: "set rs = set xs"
    by (simp add: rs_def set_array_sort)
  have perm: "mset rs = mset xs"
    by (simp add: rs_def mset_array_sort)
  have "sorted_wrt (\<lambda>a b. cmp a b \<le> 0) rs"
    unfolding rs_def by (rule sorted_array_sort [where A = "set xs", OF total trans]) simp_all
  then have srt: "sorted_wrt (\<lambda>a b. if dir = JStr ''ASC'' then \<not> lt (get b key) (get a key)
                                     else \<not> lt (get a key) (get b key)) rs"
    by (rule sorted_wrt_mono_rel [rotated]) (simp add: le set_rs)
  have stable: "filter (\<lambda>x. \<not> lt (get r key) (get x key) \<and> \<not> lt (get x key) (get r key)) rs
                  = filter (\<lambda>x. \<not> lt (get r key) (get x key) \<and> \<not> lt (get x key) (get r key)) xs"
    if r: "r \<in> set rs" for r
  proof -
    from r have rx: "r \<in> set xs" by (simp add: set_rs)
    have same: "(cmp r x \<le> 0 \<and> cmp x r \<le> 0)
                  = (\<not> lt (get r key) (get x key) \<and> \<not> lt (get x key) (get r key))"
      if "x \<in> set xs" for x
      using that rx by (auto simp: le)
    have "filter (\<lambda>y. cmp r y \<le> 0 \<and> cmp y r \<le> 0) rs
            = filter (\<lambda>y. cmp r y \<le> 0 \<and> cmp y r \<le> 0) xs"
      unfolding rs_def
      by (rule filter_array_sort [where A = "set xs", OF total trans rx]) simp_all
    moreover have "filter (\<lambda>y. cmp r y \<le> 0 \<and> cmp y r \<le> 0) rs
            = filter (\<lambda>x. \<not> lt (get r key) (get x key) \<and> \<not> lt (get x key) (get r key)) rs"
      by (rule filter_cong) (simp_all add: same set_rs)
    moreover have "filter (\<lambda>y. cmp r y \<le> 0 \<and> cmp y r \<le> 0) xs
            = filter (\<lambda>x. \<not> lt (get r key) (get x key) \<and> \<not> lt (get x key) (get r key)) xs"
      by (rule filter_cong) (simp_all add: same)
    ultimately show ?thesis by simp
  qed
  have plain: "find_mem lt f
                 (Some \<lparr>orderBy = Some ((key, dir) # further), offset = None, limit = None\<rparr>) st
               = Inr rs"
    by (simp add: find_mem_def Let_def rs_def cmp_def xs_def)
  have cut: "find_mem lt f
                 (Some \<lparr>orderBy = Some ((key, dir) # further), offset = off, limit = lim\<rparr>) st
               = find_mem lt None (Some \<lparr>orderBy = None, offset = off, limit = lim\<rparr>)
                   (st\<lparr>store := rs\<rparr>)"
    by (simp add: find_mem_def Let_def rs_def cmp_def xs_def)
  from perm srt stable plain cut
  show "\<exists>rs.
            mset rs = mset (case f of Some fl \<Rightarrow> filter (\<lambda>item. matchesFilter item fl) (store st)
                                    | None \<Rightarrow> store st)
            \<and> sorted_wrt (\<lambda>a b. if dir = JStr ''ASC'' then \<not> lt (get b key) (get a key)
                                 else \<not> lt (get a key) (get b key)) rs
            \<and> (\<forall>r\<in>set rs.
                  filter (\<lambda>x. \<not> lt (get r key) (get x key) \<and> \<not> lt (get x key) (get r key)) rs
                  = filter (\<lambda>x. \<not> lt (get r key) (get x key) \<and> \<not> lt (get x key) (get r key))
                      (case f of Some fl \<Rightarrow> filter (\<lambda>item. matchesFilter item fl) (store st)
                               | None \<Rightarrow> store st))
            \<and> find_mem lt f
                 (Some \<lparr>orderBy = Some ((key, dir) # further), offset = None, limit = None\<rparr>) st
               = Inr rs
            \<and> find_mem lt f
                 (Some \<lparr>orderBy = Some ((key, dir) # further), offset = off, limit = lim\<rparr>) st
               = find_mem lt None (Some \<lparr>orderBy = None, offset = off, limit = lim\<rparr>)
                   (st\<lparr>store := rs\<rparr>)"
    unfolding xs_def [symmetric] by blast
qed

theorem find_orders_by_first_entry_only_witness:
  "strict_weak_on js_lt (map (\<lambda>item. get item ''n'') (store example_repo3))
   \<and> find_mem js_lt None
       (Some \<lparr>orderBy = Some [(''n'', JStr ''ASC''), (''id'', JStr ''DESC'')],
              offset = None, limit = None\<rparr>) example_repo3
     = Inr [[(''id'', JStr ''b''), (''n'', JNum 1)], [(''id'', JStr ''a''), (''n'', JNum 2)],
            [(''id'', JStr ''c''), (''n'', JNum 2)]]
   \<and> find_mem js_lt None
       (Some \<lparr>orderBy = Some [(''n'', JStr ''ASC''), (''id'', JStr ''DESC'')],
              offset = Some 1, limit = Some 1\<rparr>) example_repo3
     = find_mem js_lt None
       (Some \<lparr>orderBy = Some [(''n'', JStr ''ASC'')], offset = Some 1, limit = Some 1\<rparr>)
       example_repo3"
proof -
  have sw: "strict_weak_on js_lt (map (\<lambda>item. get item ''n'') (store example_repo3))"
    by code_simp
  have plain: "find_mem js_lt None
       (Some \<lparr>orderBy = Some [(''n'', JStr ''ASC''), (''id'', JStr ''DESC'')],
              offset = None, limit = None\<rparr>) example_repo3
     = Inr [[(''id'', JStr ''b''), (''n'', JNum 1)], [(''id'', JStr ''a''), (''n'', JNum 2)],
            [(''id'', JStr ''c''), (''n'', JNum 2)]]"
    by code_simp
  from sw plain
    find_orders_by_first_entry_only
      [where lt = js_lt and key = "''n''" and f = None and st = example_repo3
         and dir = "JStr ''ASC''" and further = "[(''id'', JStr ''DESC'')]"
         and off = "Some 1" and lim = "Some 1"]
  show ?thesis by simp
qed

section \<open>Validation in the record service\<close>

lemma validateOrReject_fails:
  "rules cls instance \<noteq> [] \<Longrightarrow>
     validateOrReject cls instance = Inl (ValidationFailed (rules cls instance))"
  by (cases "rules cls instance") (simp_all add: validateOrReject_def)

lemma create_service_rejects:
  assumes "rules (entity svc) (obj_assign (new_instance (entity svc)) data) \<noteq> []"
  shows "create_service svc data s
         = (Inl (ValidationFailed (rules (entity svc) (obj_assign (new_instance (entity svc)) data))), s)"
  using assms
  by (simp add: create_service_def beforeCreate_def Let_def validateOrReject_fails)

text \<open>
  C3: when the transient instance built from \<open>data\<close> violates a declared rule, the
  service's \<open>create\<close> fails with \<open>ValidationFailed\<close> carrying the violations, and the
  store state is returned as it was, for every repository; the counting repository shows
  that no call reached the store, and with the in-memory repository the number of
  records is unchanged.
\<close>

theorem create_validation_gate:
  assumes "rules cls (obj_assign (new_instance cls) data) \<noteq> []"
  shows "create_service \<lparr>repo = r, entity = cls\<rparr> data s
           = (Inl (ValidationFailed (rules cls (obj_assign (new_instance cls) data))), s)
         \<and> create_service \<lparr>repo = counting r, entity = cls\<rparr> data (s, n)
           = (Inl (ValidationFailed (rules cls (obj_assign (new_instance cls) data))), (s, n))
         \<and> length (store (snd (create_service
              \<lparr>repo = InMemory_IRepository uuid, entity = cls\<rparr> data st))) = length (store st)"
  using assms by (simp add: create_service_rejects)

theorem create_validation_gate_witness:
  "rules ProductReview
     (obj_assign (new_instance ProductReview) [(''review'', JStr []), (''id'', JStr ''r2'')])
     = [Violation ''review'' ''isNotEmpty'']
   \<and> create_service \<lparr>repo = counting (InMemory_IRepository ''u1''), entity = ProductReview\<rparr>
        [(''review'', JStr []), (''id'', JStr ''r2'')] (review_repo, 0)
     = (Inl (ValidationFailed [Violation ''review'' ''isNotEmpty'']), (review_repo, 0))
   \<and> length (store (snd (create_service
        \<lparr>repo = InMemory_IRepository ''u1'', entity = ProductReview\<rparr>
        [(''review'', JStr []), (''id'', JStr ''r2'')] review_repo))) = 1"
proof -
  have r: "rules ProductReview
     (obj_assign (new_instance ProductReview) [(''review'', JStr []), (''id'', JStr ''r2'')])
     = [Violation ''review'' ''isNotEmpty'']"
    by (simp add: ProductReview_def obj_assign_def own_keys_def get_def check_rule_def
          isString_def isNotEmpty_def)
  have l: "length (store review_repo) = 1"
    by (simp add: review_repo_def)
  from r l create_validation_gate
    [of ProductReview "[(''review'', JStr []), (''id'', JStr ''r2'')]"
        "InMemory_IRepository ''u1''" review_repo 0 "''u1''" review_repo]
  show ?thesis by simp
qed

text \<open>
  C4: the default \<open>beforeUpdate\<close> should validate the partial merged onto the stored
  record. The stored review \<open>r1\<close> satisfies its rules and so does the merge with the
  partial, which only changes \<open>review\<close>; the service validates a new instance holding
  the partial alone, reports the missing \<open>id\<close>, and never calls the store.
\<close>

theorem update_validates_partial_alone:
  "rules ProductReview [(''review'', JStr ''Great!''), (''id'', JStr ''r1'')] = []
   \<and> rules ProductReview
       (spread [[(''review'', JStr ''Great!''), (''id'', JStr ''r1'')], [(''review'', JStr ''Better'')]])
       = []
   \<and> update_service \<lparr>repo = counting (InMemory_IRepository ''u1''), entity = ProductReview\<rparr>
        ''r1'' [(''review'', JStr ''Better'')] (review_repo, 0)
     = (Inl (ValidationFailed [Violation ''id'' ''isString'']), (review_repo, 0))"
  by (simp add: update_service_def beforeUpdate_def validateOrReject_def ProductReview_def
        obj_assign_def own_keys_def get_def check_rule_def isString_def isNotEmpty_def
        spread_def)

section \<open>Identifiers in the in-memory repository\<close>

text \<open>
  C5: the store compares no identifiers when it creates or updates, so pairwise distinct
  identifiers hold only for callers that keep them apart: from the empty repository,
  under any sequence of operations (transactions included) in which every create is
  fresh and every update that finds its record writes no identifier, or the record's
  own, or one that no stored record carries, the stored records have pairwise distinct
  identifiers. Two creates with the same caller-supplied identifier leave two records
  carrying it, and so does an update whose partial names the identifier of another
  record.
\<close>

theorem fresh_ids_stay_distinct:
  assumes "ops_ok ops init_repo"
  shows "distinct (ids (store (run_ops ops init_repo)))"
proof -
  have "ids_distinct init_repo"
    by (simp add: ids_distinct_def init_repo_def ids_def)
  from inv_run_ops [OF this assms] show ?thesis
    by (simp add: ids_distinct_def)
qed

theorem caller_ids_counterexample:
  "\<not> distinct (ids (store (run_ops
        [Crud (Create [(''id'', JStr ''a'')] ''u1''), Crud (Create [(''id'', JStr ''a'')] ''u2'')]
        init_repo)))
   \<and> \<not> distinct (ids (store (run_ops
        [Crud (Create [(''id'', JStr ''a'')] ''u1''), Crud (Create [(''id'', JStr ''b'')] ''u2''),
         Crud (Update ''a'' [(''id'', JStr ''b'')])]
        init_repo)))"
  by code_simp

theorem fresh_ids_stay_distinct_witness:
  "ops_ok example_ops init_repo
   \<and> ids (store (run_ops example_ops init_repo)) = [JStr ''u1'', JStr ''a'', JStr ''u4'']
   \<and> distinct (ids (store (run_ops example_ops init_repo)))"
proof -
  have ok: "ops_ok example_ops init_repo"
    by code_simp
  have run: "ids (store (run_ops example_ops init_repo)) = [JStr ''u1'', JStr ''a'', JStr ''u4'']"
    by code_simp
  from ok run fresh_ids_stay_distinct [OF ok] show ?thesis
    by simp
qed

text \<open>
  C6: when the identifier of the created record is a string that no stored record
  carried before, \<open>findById\<close> with it, right after \<open>create\<close>, returns the very record
  that \<open>create\<close> returned. When an older record carries the identifier already,
  \<open>findById\<close> returns the older record instead.
\<close>

theorem create_then_findById:
  assumes "get (fst (create data uuid st)) ''id'' = JStr i"
    and "JStr i \<notin> set (ids (store st))"
  shows "findById i (snd (create data uuid st)) = Some (fst (create data uuid st))"
proof -
  let ?P = "\<lambda>item. strict_eq (get item ''id'') (JStr i)"
  from assms(2) have "List.find ?P (store st) = None"
    by (force simp: find_None_iff ids_def strict_eq_def)
  moreover from assms(1) have "?P (fst (create data uuid st))"
    by (simp add: strict_eq_def)
  ultimately have "List.find ?P (store st @ [fst (create data uuid st)])
                     = Some (fst (create data uuid st))"
    by (simp add: find_append)
  then show ?thesis
    by (simp add: findById_def store_create)
qed

theorem create_then_findById_counterexample:
  "fst (create [(''id'', JStr ''a''), (''n'', JNum 2)] ''u1'' example_repo)
     = [(''id'', JStr ''a''), (''n'', JNum 2)]
   \<and> findById ''a'' (snd (create [(''id'', JStr ''a''), (''n'', JNum 2)] ''u1'' example_repo))
     = Some [(''id'', JStr ''a''), (''n'', JNum 1)]
   \<and> findById ''a'' (snd (create [(''id'', JStr ''a''), (''n'', JNum 2)] ''u1'' example_repo))
     \<noteq> Some (fst (create [(''id'', JStr ''a''), (''n'', JNum 2)] ''u1'' example_repo))"
  by code_simp

theorem create_then_findById_witness:
  "get (fst (create [(''n'', JNum 2)] ''u1'' example_repo)) ''id'' = JStr ''u1''
   \<and> JStr ''u1'' \<notin> set (ids (store example_repo))
   \<and> findById ''u1'' (snd (create [(''n'', JNum 2)] ''u1'' example_repo))
     = Some [(''n'', JNum 2), (''id'', JStr ''u1'')]"
proof -
  have a: "get (fst (create [(''n'', JNum 2)] ''u1'' example_repo)) ''id'' = JStr ''u1''"
    by (simp add: id_of_created get_Cons get_Nil nullish_def)
  have b: "JStr ''u1'' \<notin> set (ids (store example_repo))"
    by (simp add: example_repo_def init_repo_def ids_def get_def)
  have c: "fst (create [(''n'', JNum 2)] ''u1'' example_repo) = [(''n'', JNum 2), (''id'', JStr ''u1'')]"
    by code_simp
  from a b c create_then_findById [OF a b] show ?thesis
    by simp
qed

end
